theory Spec2Isabelle
  imports Main "HOL-Library.Sublist"
begin

section \<open>Strings and regular expressions used by the downloader\<close>

text \<open>
  Go strings are byte sequences; \<^typ>\<open>string\<close> is a list of 8-bit characters. The pattern
  of \<open>downloader.go\<close> uses ASCII classes and ASCII literals only, so matching bytes is
  the same as matching runes: every byte of a multi-byte rune is at least \<open>0x80\<close> and
  lies in no class and equals no literal of the pattern.
\<close>

text \<open>\<open>strings.HasPrefix(s, prefix)\<close>:
  \<^verbatim>\<open>len(s) >= len(prefix) && s[:len(prefix)] == prefix\<close>.\<close>

definition HasPrefix :: "string \<Rightarrow> string \<Rightarrow> bool" where
  "HasPrefix s pfx = (length s \<ge> length pfx \<and> take (length pfx) s = pfx)"

text \<open>The fragment of the \<open>regexp\<close> syntax that the pattern needs: a literal byte, a
  character class given by its ranges, concatenation and the star. \<open>Fail\<close>, \<open>Empty\<close> and
  \<open>Alt\<close> are what the derivative of a concatenation is built from.\<close>

datatype regex =
    Fail
  | Empty
  | Lit char
  | Class "(char \<times> char) list"
  | Cat regex regex
  | Alt regex regex
  | Star regex

definition in_range :: "char \<Rightarrow> char \<times> char \<Rightarrow> bool" where
  "in_range c r = ((of_char (fst r) :: nat) \<le> of_char c \<and> (of_char c :: nat) \<le> of_char (snd r))"

definition in_class :: "(char \<times> char) list \<Rightarrow> char \<Rightarrow> bool" where
  "in_class rs c = list_ex (in_range c) rs"

fun nullable :: "regex \<Rightarrow> bool" where
  "nullable Fail = False"
| "nullable Empty = True"
| "nullable (Lit c) = False"
| "nullable (Class rs) = False"
| "nullable (Cat r s) = (nullable r \<and> nullable s)"
| "nullable (Alt r s) = (nullable r \<or> nullable s)"
| "nullable (Star r) = True"

fun deriv :: "char \<Rightarrow> regex \<Rightarrow> regex" where
  "deriv c Fail = Fail"
| "deriv c Empty = Fail"
| "deriv c (Lit d) = (if c = d then Empty else Fail)"
| "deriv c (Class rs) = (if in_class rs c then Empty else Fail)"
| "deriv c (Cat r s) =
     (if nullable r then Alt (Cat (deriv c r) s) (deriv c s) else Cat (deriv c r) s)"
| "deriv c (Alt r s) = Alt (deriv c r) (deriv c s)"
| "deriv c (Star r) = Cat (deriv c r) (Star r)"

text \<open>Does some prefix of the text, starting at its first byte, match the expression?\<close>

fun match_here :: "regex \<Rightarrow> string \<Rightarrow> bool" where
  "match_here r [] = nullable r"
| "match_here r (c # cs) = (nullable r \<or> match_here (deriv c r) cs)"

text \<open>A compiled pattern: whether it starts with the anchor \<open>^\<close> (beginning of text; the
  pattern sets no multi-line flag) and the expression after it.\<close>

record regexp =
  anchored :: bool
  body :: regex

text \<open>\<open>(*Regexp).MatchString\<close> reports whether the text contains any match. An anchored
  pattern can match at the first byte only.\<close>

definition MatchString :: "regexp \<Rightarrow> string \<Rightarrow> bool" where
  "MatchString re s =
     (if anchored re then match_here (body re) s
      else list_ex (match_here (body re)) (suffixes s))"

definition literal :: "string \<Rightarrow> regex" where
  "literal s = foldr (\<lambda>c r. Cat (Lit c) r) s Empty"

section \<open>The classifier of \<open>downloader.go\<close>\<close>

text \<open>The class \<open>[A-Za-z0-9]\<close>.\<close>

definition alnum_ranges :: "(char \<times> char) list" where
  "alnum_ranges = [(CHR ''A'', CHR ''Z''), (CHR ''a'', CHR ''z''), (CHR ''0'', CHR ''9'')]"

text \<open>A byte of that class: an ASCII letter or digit.\<close>

definition alnum :: "char \<Rightarrow> bool" where
  "alnum c = in_class alnum_ranges c"

text \<open>\<^verbatim>\<open>var insecure = regexp.MustCompile("^[A-Za-z0-9]*::http:")\<close>\<close>

definition insecure :: regexp where
  "insecure = \<lparr> anchored = True,
                body = Cat (Star (Class alnum_ranges)) (literal ''::http:'') \<rparr>"

text \<open>\<^verbatim>\<open>return !strings.HasPrefix(url, "http:") && !insecure.MatchString(url)\<close>\<close>

definition isSecure :: "string \<Rightarrow> bool" where
  "isSecure url = (\<not> HasPrefix url ''http:'' \<and> \<not> MatchString insecure url)"

section \<open>The dispatcher of \<open>downloader.go\<close>\<close>

text \<open>
  \<open>Download\<close> calls code that lies outside the package: the Conftest downloader, the
  go-gather function held in the variable \<open>gatherFunc\<close>, the \<open>downloadImpl\<close> carried by
  the context, and \<open>utils.UseGoGather\<close>. They are parameters of the model. A call of such
  an engine returns, panics or never returns.
\<close>

datatype ('a, 'p) outcome = Returns 'a | Panics 'p | Hangs

text \<open>A non-nil value of the interface \<open>error\<close>: made by \<open>fmt.Errorf\<close> from its formatted
  text, or any other value, with an identity of its own and its text.\<close>

datatype 'x error = Errorf string | Other 'x string

fun Error :: "'x error \<Rightarrow> string" where
  "Error (Errorf s) = s"
| "Error (Other x s) = s"

text \<open>A context: the context it was derived from, and the value stored under
  \<open>downloadImplKey\<close>, if any. The stored value is an interface value and may be nil
  (\<open>None\<close>).\<close>

record ('c, 'd) Context =
  parent :: 'c
  downloadImplValue :: "'d option option"

text \<open>\<^verbatim>\<open>return context.WithValue(ctx, downloadImplKey, d)\<close>\<close>

definition WithDownloadImpl :: "('c, 'd) Context \<Rightarrow> 'd option \<Rightarrow> ('c, 'd) Context" where
  "WithDownloadImpl ctx d = ctx\<lparr>downloadImplValue := Some d\<rparr>"

text \<open>\<^verbatim>\<open>d, ok := ctx.Value(downloadImplKey).(downloadImpl)\<close>: the assertion fails on a
  missing value and on a nil one.\<close>

definition ctx_downloadImpl :: "('c, 'd) Context \<Rightarrow> 'd option" where
  "ctx_downloadImpl ctx = (case downloadImplValue ctx of Some (Some d) \<Rightarrow> Some d | _ \<Rightarrow> None)"

text \<open>What a call does that can be observed: log entries, printed lines, operations on
  \<open>dlMutex\<close> and calls of the engines with their arguments.\<close>

datatype ('c, 'd) event =
    LogDebug string
  | Println string
  | MutexLock
  | MutexUnlock
  | CallConftest "('c, 'd) Context" string "string list"
  | CallGather "('c, 'd) Context" string string
  | CallImpl 'd "('c, 'd) Context" string "string list"

record ('c, 'd) world =
  dlMutex :: bool
  trace :: "('c, 'd) event list"

record ('c, 'd, 'm, 'x, 'p) env =
  UseGoGather :: bool
  gatherFunc :: "('c, 'd) Context \<Rightarrow> string \<Rightarrow> string \<Rightarrow> ('m option \<times> 'x error option, 'p) outcome"
  conftest_Download :: "('c, 'd) Context \<Rightarrow> string \<Rightarrow> string list \<Rightarrow> ('x error option, 'p) outcome"
  impl_Download :: "'d \<Rightarrow> ('c, 'd) Context \<Rightarrow> string \<Rightarrow> string list \<Rightarrow> ('x error option, 'p) outcome"

definition emit :: "('c, 'd) event \<Rightarrow> ('c, 'd) world \<Rightarrow> ('c, 'd) world" where
  "emit e w = w\<lparr>trace := trace w @ [e]\<rparr>"

definition lock :: "('c, 'd) world \<Rightarrow> ('c, 'd) world" where
  "lock w = emit MutexLock (w\<lparr>dlMutex := True\<rparr>)"

definition unlock :: "('c, 'd) world \<Rightarrow> ('c, 'd) world" where
  "unlock w = emit MutexUnlock (w\<lparr>dlMutex := False\<rparr>)"

type_synonym ('c, 'd, 'm, 'x, 'p) dl =
  "('c, 'd) Context \<Rightarrow> string \<Rightarrow> string \<Rightarrow> ('c, 'd) world \<Rightarrow>
   ('m option \<times> 'x error option, 'p) outcome \<times> ('c, 'd) world"

text \<open>The closure \<open>dl\<close> as first assigned. \<open>dlMutex.Lock()\<close> on a held mutex waits, so
  the call does not return while the mutex stays held. The deferred \<open>Unlock\<close> runs when
  the engine returns and when it panics.
  \<^verbatim>\<open>
  dlMutex.Lock()
  defer dlMutex.Unlock()
  return nil, downloader.Download(ctx, destDir, []string{sourceUrl})
  \<close>\<close>

definition dl_default :: "('c, 'd, 'm, 'x, 'p) env \<Rightarrow> ('c, 'd, 'm, 'x, 'p) dl" where
  "dl_default env ctx sourceUrl destDir w =
     (if dlMutex w then (Hangs, w)
      else
        let w1 = lock w;
            w2 = emit (CallConftest ctx destDir [sourceUrl]) w1
        in case conftest_Download env ctx destDir [sourceUrl] of
             Returns err \<Rightarrow> (Returns (None, err), unlock w2)
           | Panics p \<Rightarrow> (Panics p, unlock w2)
           | Hangs \<Rightarrow> (Hangs, w2))"

text \<open>The closure assigned when \<open>utils.UseGoGather()\<close> holds.
  \<^verbatim>\<open>
  m, err := gatherFunc(ctx, sourceUrl, destDir)
  if err != nil { log.Debug("Download failed!") }
  return m, err
  \<close>\<close>

definition dl_gather :: "('c, 'd, 'm, 'x, 'p) env \<Rightarrow> ('c, 'd, 'm, 'x, 'p) dl" where
  "dl_gather env ctx sourceUrl destDir w =
     (let w1 = emit (CallGather ctx sourceUrl destDir) w
      in case gatherFunc env ctx sourceUrl destDir of
           Returns (m, err) \<Rightarrow>
             (Returns (m, err), if err \<noteq> None then emit (LogDebug ''Download failed!'') w1 else w1)
         | Panics p \<Rightarrow> (Panics p, w1)
         | Hangs \<Rightarrow> (Hangs, w1))"

text \<open>The closure assigned when the context carries a \<open>downloadImpl\<close>.
  \<^verbatim>\<open>
  err := d.Download(ctx, destDir, []string{sourceUrl})
  if err != nil { log.Debug("Download failed!") }
  return nil, err
  \<close>\<close>

definition dl_impl :: "('c, 'd, 'm, 'x, 'p) env \<Rightarrow> 'd \<Rightarrow> ('c, 'd, 'm, 'x, 'p) dl" where
  "dl_impl env d ctx sourceUrl destDir w =
     (let w1 = emit (CallImpl d ctx destDir [sourceUrl]) w
      in case impl_Download env d ctx destDir [sourceUrl] of
           Returns err \<Rightarrow>
             (Returns (None, err), if err \<noteq> None then emit (LogDebug ''Download failed!'') w1 else w1)
         | Panics p \<Rightarrow> (Panics p, w1)
         | Hangs \<Rightarrow> (Hangs, w1))"

text \<open>\<open>Download(ctx, destDir, sourceUrl, showMsg)\<close>. The verb \<open>%s\<close> of \<open>fmt\<close> writes a
  string as it is.\<close>

definition Download ::
  "('c, 'd, 'm, 'x, 'p) env \<Rightarrow> ('c, 'd) Context \<Rightarrow> string \<Rightarrow> string \<Rightarrow> bool \<Rightarrow> ('c, 'd) world \<Rightarrow>
   ('m option \<times> 'x error option, 'p) outcome \<times> ('c, 'd) world" where
  "Download env ctx destDir sourceUrl showMsg w =
     (if \<not> isSecure sourceUrl then
        (Returns (None, Some (Errorf (''attempting to download from insecure source: '' @ sourceUrl))), w)
      else
        let msg = ''Downloading '' @ sourceUrl @ '' to '' @ destDir;
            w1 = emit (LogDebug msg) w;
            w2 = (if showMsg then emit (Println msg) w1 else w1);
            dl = dl_default env;
            dl = (if UseGoGather env then dl_gather env
                  else case ctx_downloadImpl ctx of Some d \<Rightarrow> dl_impl env d | None \<Rightarrow> dl)
        in case dl ctx sourceUrl destDir w2 of
             (Returns (m, err), w3) \<Rightarrow>
               (Returns (m, err), if err \<noteq> None then emit (LogDebug ''Download failed!'') w3 else w3)
           | (Panics p, w3) \<Rightarrow> (Panics p, w3)
           | (Hangs, w3) \<Rightarrow> (Hangs, w3))"

text \<open>The calls of engines recorded in a trace, in order.\<close>

fun is_engine_call :: "('c, 'd) event \<Rightarrow> bool" where
  "is_engine_call (CallConftest ctx destDir urls) = True"
| "is_engine_call (CallGather ctx sourceUrl destDir) = True"
| "is_engine_call (CallImpl d ctx destDir urls) = True"
| "is_engine_call e = False"

definition engine_calls :: "('c, 'd) event list \<Rightarrow> ('c, 'd) event list" where
  "engine_calls t = filter is_engine_call t"

text \<open>The statements between the check of the URL and the choice of the engine, as one
  step: the notice goes to the debug log and, when \<open>showMsg\<close> is set, to standard output.\<close>

definition announce :: "string \<Rightarrow> string \<Rightarrow> bool \<Rightarrow> ('c, 'd) world \<Rightarrow> ('c, 'd) world" where
  "announce sourceUrl destDir showMsg w =
     (let msg = ''Downloading '' @ sourceUrl @ '' to '' @ destDir;
          w1 = emit (LogDebug msg) w
      in if showMsg then emit (Println msg) w1 else w1)"

subsection \<open>The doubles of \<open>downloader_test.go\<close>\<close>

text \<open>The test replaces \<open>gatherFunc\<close> by a function that returns \<open>nil, tt.err\<close> and attaches
  a mock whose \<open>Download\<close> returns \<open>tt.err\<close>. Here the metadata that the replaced
  \<open>gatherFunc\<close> returns is a parameter too, and the Conftest downloader behaves like the
  mock.\<close>

definition mock_env ::
  "bool \<Rightarrow> nat option \<Rightarrow> nat error option \<Rightarrow> (unit, nat, nat, nat, unit) env" where
  "mock_env useGoGather m err =
     \<lparr> UseGoGather = useGoGather,
       gatherFunc = (\<lambda>ctx sourceUrl destDir. Returns (m, err)),
       conftest_Download = (\<lambda>ctx destDir urls. Returns err),
       impl_Download = (\<lambda>d ctx destDir urls. Returns err) \<rparr>"


text \<open>\<open>context.TODO()\<close>\<close>

definition todo :: "(unit, nat) Context" where
  "todo = \<lparr> parent = (), downloadImplValue = None \<rparr>"

text \<open>The state before any call: the mutex free, nothing observed yet.\<close>

definition idle :: "(unit, nat) world" where
  "idle = \<lparr> dlMutex = False, trace = [] \<rparr>"

section \<open>The language of an expression\<close>

text \<open>The set of texts an expression matches, against which the matcher is verified.\<close>

inductive_set star :: "string set \<Rightarrow> string set" for A :: "string set" where
  star_nil: "[] \<in> star A"
| star_app: "u \<in> A \<Longrightarrow> v \<in> star A \<Longrightarrow> u @ v \<in> star A"

fun lang :: "regex \<Rightarrow> string set" where
  "lang Fail = {}"
| "lang Empty = {[]}"
| "lang (Lit c) = {[c]}"
| "lang (Class rs) = {[c] | c. in_class rs c}"
| "lang (Cat r s) = {u @ v | u v. u \<in> lang r \<and> v \<in> lang s}"
| "lang (Alt r s) = lang r \<union> lang s"
| "lang (Star r) = star (lang r)"


section \<open>Schemes of URLs\<close>

text \<open>
  The specification speaks of malformed URLs: non-empty strings with no recognizable
  well-formed scheme. The classifier has no such notion; to state what it does on those
  strings, a scheme is taken as in RFC 3986: a letter, then letters, digits, \<open>+\<close>, \<open>-\<close>
  and \<open>.\<close>, up to a colon.
\<close>

definition alpha :: "char \<Rightarrow> bool" where
  "alpha c = in_class [(CHR ''A'', CHR ''Z''), (CHR ''a'', CHR ''z'')] c"

definition scheme_char :: "char \<Rightarrow> bool" where
  "scheme_char c = (alnum c \<or> c \<in> set ''+-.'')"

definition has_scheme :: "string \<Rightarrow> bool" where
  "has_scheme url =
     (case takeWhile scheme_char url of
        [] \<Rightarrow> False
      | c # cs \<Rightarrow>
          alpha c \<and> (case dropWhile scheme_char url of [] \<Rightarrow> False | d # rest \<Rightarrow> d = CHR '':''))"

definition malformed :: "string \<Rightarrow> bool" where
  "malformed url = (url \<noteq> [] \<and> \<not> has_scheme url)"

section \<open>Correctness of the matcher\<close>

lemma HasPrefix_iff: "HasPrefix s p \<longleftrightarrow> prefix p s"
  unfolding HasPrefix_def
proof
  assume "length p \<le> length s \<and> take (length p) s = p"
  then have "s = p @ drop (length p) s"
    by (metis append_take_drop_id)
  then show "prefix p s" by (metis prefixI)
next
  assume "prefix p s"
  then obtain t where "s = p @ t" by (auto elim: prefixE)
  then show "length p \<le> length s \<and> take (length p) s = p" by simp
qed

lemma nullable_lang: "nullable r \<longleftrightarrow> [] \<in> lang r"
  by (induction r) (auto intro: star.star_nil)

lemma lang_CatI: "u \<in> lang r \<Longrightarrow> v \<in> lang s \<Longrightarrow> u @ v \<in> lang (Cat r s)"
  by auto

lemma star_Cons_split:
  assumes "x \<in> star A" and "x = c # w"
  shows "\<exists>u v. w = u @ v \<and> c # u \<in> A \<and> v \<in> star A"
  using assms
proof (induction rule: star.induct)
  case star_nil
  then show ?case by simp
next
  case (star_app u v)
  show ?case
  proof (cases u)
    case Nil
    with star_app show ?thesis by simp
  next
    case (Cons d u')
    with star_app.prems have "d = c" and "w = u' @ v" by simp_all
    with Cons star_app.hyps show ?thesis by blast
  qed
qed

lemma lang_deriv: "lang (deriv c r) = {w. c # w \<in> lang r}"
proof (induction r)
  case (Cat r s)
  have "{w. c # w \<in> lang (Cat r s)} =
        {u @ v | u v. c # u \<in> lang r \<and> v \<in> lang s} \<union> (if nullable r then {w. c # w \<in> lang s} else {})"
    (is "?L = ?R")
  proof (intro equalityI subsetI)
    fix w assume "w \<in> ?L"
    then obtain u v where uv: "c # w = u @ v" "u \<in> lang r" "v \<in> lang s" by auto
    show "w \<in> ?R"
    proof (cases u)
      case Nil
      with uv show ?thesis by (auto simp: nullable_lang)
    next
      case (Cons d u')
      with uv show ?thesis by auto
    qed
  next
    fix w assume "w \<in> ?R"
    then show "w \<in> ?L"
    proof
      assume "w \<in> {u @ v | u v. c # u \<in> lang r \<and> v \<in> lang s}"
      then obtain u v where "w = u @ v" "c # u \<in> lang r" "v \<in> lang s" by auto
      then have "(c # u) @ v \<in> lang (Cat r s)" and "c # w = (c # u) @ v"
        using lang_CatI [of "c # u" r v s] by simp_all
      then show ?thesis by simp
    next
      assume "w \<in> (if nullable r then {w. c # w \<in> lang s} else {})"
      then have "[] \<in> lang r" "c # w \<in> lang s" by (auto simp: nullable_lang split: if_splits)
      then have "[] @ (c # w) \<in> lang (Cat r s)" by (rule lang_CatI)
      then show ?thesis by simp
    qed
  qed
  with Cat show ?case by auto
next
  case (Star r)
  have "{w. c # w \<in> star (lang r)} = {u @ v | u v. c # u \<in> lang r \<and> v \<in> star (lang r)}"
  proof (intro equalityI subsetI)
    fix w assume "w \<in> {w. c # w \<in> star (lang r)}"
    then show "w \<in> {u @ v | u v. c # u \<in> lang r \<and> v \<in> star (lang r)}"
      using star_Cons_split [of "c # w" "lang r" c w] by auto
  next
    fix w assume "w \<in> {u @ v | u v. c # u \<in> lang r \<and> v \<in> star (lang r)}"
    then obtain u v where "w = u @ v" "c # u \<in> lang r" "v \<in> star (lang r)" by auto
    then show "w \<in> {w. c # w \<in> star (lang r)}"
      using star.star_app [of "c # u" "lang r" v] by simp
  qed
  with Star show ?case by simp
qed auto

lemma match_here_lang: "match_here r s \<longleftrightarrow> (\<exists>u v. s = u @ v \<and> u \<in> lang r)"
proof (induction s arbitrary: r)
  case Nil
  then show ?case by (simp add: nullable_lang)
next
  case (Cons c cs)
  show ?case
  proof
    assume "match_here r (c # cs)"
    then consider "nullable r" | "match_here (deriv c r) cs" by auto
    then show "\<exists>u v. c # cs = u @ v \<and> u \<in> lang r"
    proof cases
      case 1
      then have "c # cs = [] @ (c # cs) \<and> [] \<in> lang r" by (simp add: nullable_lang)
      then show ?thesis by blast
    next
      case 2
      with Cons obtain u v where "cs = u @ v" "u \<in> lang (deriv c r)" by blast
      then have "c # cs = (c # u) @ v \<and> c # u \<in> lang r" by (simp add: lang_deriv)
      then show ?thesis by blast
    qed
  next
    assume "\<exists>u v. c # cs = u @ v \<and> u \<in> lang r"
    then obtain u v where uv: "c # cs = u @ v" "u \<in> lang r" by blast
    show "match_here r (c # cs)"
    proof (cases u)
      case Nil
      with uv(2) have "nullable r" by (simp add: nullable_lang)
      then show ?thesis by simp
    next
      case (Cons d u')
      with uv have "cs = u' @ v" "u' \<in> lang (deriv c r)" by (simp_all add: lang_deriv)
      with Cons.IH show ?thesis by auto
    qed
  qed
qed

lemma lang_literal: "lang (literal s) = {s}"
  unfolding literal_def by (induction s) auto

lemma star_Class: "star (lang (Class rs)) = {s. list_all (in_class rs) s}"
proof (intro equalityI subsetI)
  fix x assume "x \<in> star (lang (Class rs))"
  then show "x \<in> {s. list_all (in_class rs) s}"
    by (induction rule: star.induct) auto
next
  fix x assume "x \<in> {s. list_all (in_class rs) s}"
  then have "list_all (in_class rs) x" by simp
  then show "x \<in> star (lang (Class rs))"
  proof (induction x)
    case Nil
    show ?case by (rule star.star_nil)
  next
    case (Cons c cs)
    then have "[c] \<in> lang (Class rs)" "cs \<in> star (lang (Class rs))" by auto
    then have "[c] @ cs \<in> star (lang (Class rs))" by (rule star.star_app)
    then show ?case by simp
  qed
qed

lemma alnum_fun: "alnum = in_class alnum_ranges"
  by (simp add: fun_eq_iff alnum_def)

lemma MatchString_insecure:
  "MatchString insecure url \<longleftrightarrow> (\<exists>s rest. list_all alnum s \<and> url = s @ ''::http:'' @ rest)"
proof -
  have "MatchString insecure url \<longleftrightarrow>
        (\<exists>u v. url = u @ v \<and> u \<in> lang (Cat (Star (Class alnum_ranges)) (literal ''::http:'')))"
    by (simp add: MatchString_def insecure_def match_here_lang)
  also have "\<dots> \<longleftrightarrow> (\<exists>s rest. list_all alnum s \<and> url = s @ ''::http:'' @ rest)"
  proof
    assume "\<exists>u v. url = u @ v \<and> u \<in> lang (Cat (Star (Class alnum_ranges)) (literal ''::http:''))"
    then obtain u v where uv: "url = u @ v"
      and "u \<in> lang (Cat (Star (Class alnum_ranges)) (literal ''::http:''))" by blast
    then obtain s where "u = s @ ''::http:''" "s \<in> star (lang (Class alnum_ranges))"
      unfolding lang.simps(5,7) lang_literal by blast
    then have "list_all alnum s" "url = s @ ''::http:'' @ v"
      using uv by (simp_all add: star_Class alnum_fun del: lang.simps(4))
    then show "\<exists>s rest. list_all alnum s \<and> url = s @ ''::http:'' @ rest" by blast
  next
    assume "\<exists>s rest. list_all alnum s \<and> url = s @ ''::http:'' @ rest"
    then obtain s rest where s: "list_all alnum s" and url: "url = s @ ''::http:'' @ rest" by blast
    from s have "s \<in> lang (Star (Class alnum_ranges))"
      by (simp add: star_Class alnum_fun del: lang.simps(4))
    moreover have "''::http:'' \<in> lang (literal ''::http:'')"
      by (simp add: lang_literal)
    ultimately have "s @ ''::http:'' \<in> lang (Cat (Star (Class alnum_ranges)) (literal ''::http:''))"
      by (rule lang_CatI)
    moreover from url have "url = (s @ ''::http:'') @ rest" by simp
    ultimately show "\<exists>u v. url = u @ v \<and> u \<in> lang (Cat (Star (Class alnum_ranges)) (literal ''::http:''))"
      by blast
  qed
  finally show ?thesis .
qed

lemma alnum_chars: "alnum c \<longleftrightarrow> c \<in> set ''ABCDEFGHIJKLMNOPQRSTUVWXYZabcdefghijklmnopqrstuvwxyz0123456789''"
  by (cases c) (simp add: alnum_def alnum_ranges_def in_class_def in_range_def)

lemma has_scheme_http: "has_scheme (''http:'' @ rest)"
  by (simp add: has_scheme_def scheme_char_def alnum_def alpha_def alnum_ranges_def
      in_class_def in_range_def)

lemma malformed_not_http: "malformed url \<Longrightarrow> \<not> HasPrefix url ''http:''"
proof
  assume m: "malformed url" and "HasPrefix url ''http:''"
  then obtain rest where "url = ''http:'' @ rest"
    by (auto simp: HasPrefix_iff elim: prefixE)
  with has_scheme_http [of rest] m show False by (simp add: malformed_def)
qed

section \<open>The classifier\<close>

text \<open>
  Claim C1. For every string \<open>url\<close>, \<open>isSecure\<close> returns false exactly when \<open>url\<close> begins
  with \<open>http:\<close> or consists of a run of ASCII letters and digits (possibly empty), then
  \<open>::http:\<close>, then anything. Every other string is classified secure.
\<close>

theorem isSecure_false_iff:
  "isSecure url = False \<longleftrightarrow>
     (prefix ''http:'' url \<or> (\<exists>s rest. list_all alnum s \<and> url = s @ ''::http:'' @ rest))"
  by (simp add: isSecure_def HasPrefix_iff MatchString_insecure)

theorem isSecure_false_iff_witness:
  "list_all alnum ''git''
   \<and> isSecure ''git::http://github.com/org/repository'' = False
   \<and> isSecure ''http://example.com'' = False
   \<and> isSecure ''git::https://github.com/mitchellh/vagrant.git'' = True
   \<and> isSecure ''oci::registry.io/repository/image:tag'' = True
   \<and> isSecure ''./foo'' = True"
proof -
  have a: "list_all alnum ''git''"
    by (simp add: alnum_def alnum_ranges_def in_class_def in_range_def)
  have "''git::http://github.com/org/repository'' =
        ''git'' @ ''::http:'' @ ''//github.com/org/repository''"
    by simp
  with a have 1: "isSecure ''git::http://github.com/org/repository'' = False"
    using isSecure_false_iff [of "''git::http://github.com/org/repository''"] by blast
  have 2: "isSecure ''http://example.com'' = False"
    using isSecure_false_iff [of "''http://example.com''"] by simp
  have 3: "isSecure ''git::https://github.com/mitchellh/vagrant.git'' = True"
    "isSecure ''oci::registry.io/repository/image:tag'' = True"
    "isSecure ''./foo'' = True"
    by code_simp+
  from a 1 2 3 show ?thesis by simp
qed

text \<open>
  Claim C9. The pattern accepts an empty wrapper: every string that begins with
  \<open>::http:\<close> is classified insecure.
\<close>

theorem isSecure_empty_scheme: "isSecure (''::http:'' @ rest) = False"
proof -
  have "list_all alnum [] \<and> ''::http:'' @ rest = [] @ ''::http:'' @ rest" by simp
  then have "MatchString insecure (''::http:'' @ rest)"
    unfolding MatchString_insecure by blast
  then show ?thesis by (simp add: isSecure_def)
qed

text \<open>
  Claim C5 says that a malformed URL is classified insecure. It is not: \<open>./foo\<close>, which
  the package's own test expects to be secure, is non-empty, has no scheme, and is
  classified secure.
\<close>

theorem malformed_secure_counterexample:
  "malformed ''./foo'' \<and> isSecure ''./foo'' = True"
  by code_simp

text \<open>
  Claim C5, amended. A malformed URL is classified like any other string that does not
  begin with \<open>http:\<close>: insecure when it is a run of ASCII letters and digits, then
  \<open>::http:\<close>, then anything, and secure otherwise.
\<close>

theorem malformed_isSecure:
  "malformed url \<Longrightarrow>
   isSecure url = (\<not> (\<exists>s rest. list_all alnum s \<and> url = s @ ''::http:'' @ rest))"
  using malformed_not_http [of url] by (simp add: isSecure_def MatchString_insecure)

theorem malformed_isSecure_witness:
  "malformed ''://example.com''
   \<and> isSecure ''://example.com'' =
       (\<not> (\<exists>s rest. list_all alnum s \<and> ''://example.com'' = s @ ''::http:'' @ rest))
   \<and> isSecure ''://example.com'' = True"
proof -
  have m: "malformed ''://example.com''" by code_simp
  have s: "isSecure ''://example.com'' = True" by code_simp
  from malformed_isSecure [OF m] m s show ?thesis by blast
qed

text \<open>The empty string is classified secure.\<close>

lemma isSecure_Nil: "isSecure [] = True"
  by code_simp

section \<open>The dispatcher: what a call does on each path\<close>

lemma engine_calls_announce [simp]:
  "engine_calls (trace (announce url dd sm w)) = engine_calls (trace w)"
  by (simp add: announce_def engine_calls_def emit_def Let_def)

lemma dlMutex_announce [simp]: "dlMutex (announce url dd sm w) = dlMutex w"
  by (simp add: announce_def emit_def Let_def)

lemma Download_secure:
  "isSecure url \<Longrightarrow>
   Download env ctx dd url sm w =
     (case (if UseGoGather env then dl_gather env
            else case ctx_downloadImpl ctx of Some d \<Rightarrow> dl_impl env d | None \<Rightarrow> dl_default env)
           ctx url dd (announce url dd sm w) of
        (Returns (m, err), w3) \<Rightarrow>
          (Returns (m, err), if err \<noteq> None then emit (LogDebug ''Download failed!'') w3 else w3)
      | (Panics p, w3) \<Rightarrow> (Panics p, w3)
      | (Hangs, w3) \<Rightarrow> (Hangs, w3))"
  by (simp add: Download_def announce_def Let_def)

lemma Download_gather:
  assumes "isSecure url" "UseGoGather env"
  shows "Download env ctx dd url sm w =
     (let w1 = emit (CallGather ctx url dd) (announce url dd sm w) in
      case gatherFunc env ctx url dd of
        Returns (m, err) \<Rightarrow>
          (Returns (m, err),
           if err \<noteq> None
           then emit (LogDebug ''Download failed!'') (emit (LogDebug ''Download failed!'') w1)
           else w1)
      | Panics p \<Rightarrow> (Panics p, w1)
      | Hangs \<Rightarrow> (Hangs, w1))"
  using assms by (simp add: Download_secure dl_gather_def Let_def split: outcome.splits)

lemma Download_impl:
  assumes "isSecure url" "\<not> UseGoGather env" "ctx_downloadImpl ctx = Some d"
  shows "Download env ctx dd url sm w =
     (let w1 = emit (CallImpl d ctx dd [url]) (announce url dd sm w) in
      case impl_Download env d ctx dd [url] of
        Returns err \<Rightarrow>
          (Returns (None, err),
           if err \<noteq> None
           then emit (LogDebug ''Download failed!'') (emit (LogDebug ''Download failed!'') w1)
           else w1)
      | Panics p \<Rightarrow> (Panics p, w1)
      | Hangs \<Rightarrow> (Hangs, w1))"
  using assms by (simp add: Download_secure dl_impl_def Let_def split: outcome.splits)

lemma Download_default:
  assumes "isSecure url" "\<not> UseGoGather env" "ctx_downloadImpl ctx = None"
  shows "Download env ctx dd url sm w =
     (if dlMutex w then (Hangs, announce url dd sm w)
      else
        let w1 = emit (CallConftest ctx dd [url]) (lock (announce url dd sm w)) in
        case conftest_Download env ctx dd [url] of
          Returns err \<Rightarrow>
            (Returns (None, err),
             if err \<noteq> None then emit (LogDebug ''Download failed!'') (unlock w1) else unlock w1)
        | Panics p \<Rightarrow> (Panics p, unlock w1)
        | Hangs \<Rightarrow> (Hangs, w1))"
  using assms by (simp add: Download_secure dl_default_def Let_def split: outcome.splits)

lemma engine_calls_emit:
  "engine_calls (trace (emit e w)) = engine_calls (trace w) @ (if is_engine_call e then [e] else [])"
  by (simp add: emit_def engine_calls_def)

lemma engine_calls_lock [simp]: "engine_calls (trace (lock w)) = engine_calls (trace w)"
  by (simp add: lock_def emit_def engine_calls_def)

lemma engine_calls_unlock [simp]: "engine_calls (trace (unlock w)) = engine_calls (trace w)"
  by (simp add: unlock_def emit_def engine_calls_def)

lemma calls_gather:
  assumes "isSecure url" "UseGoGather env"
  shows "engine_calls (trace (snd (Download env ctx dd url sm w))) =
         engine_calls (trace w) @ [CallGather ctx url dd]"
  using assms
  by (simp add: Download_gather Let_def engine_calls_emit split: outcome.splits)

lemma calls_impl:
  assumes "isSecure url" "\<not> UseGoGather env" "ctx_downloadImpl ctx = Some d"
  shows "engine_calls (trace (snd (Download env ctx dd url sm w))) =
         engine_calls (trace w) @ [CallImpl d ctx dd [url]]"
  using assms
  by (simp add: Download_impl Let_def engine_calls_emit split: outcome.splits)

lemma calls_default:
  assumes "isSecure url" "\<not> UseGoGather env" "ctx_downloadImpl ctx = None" "\<not> dlMutex w"
  shows "engine_calls (trace (snd (Download env ctx dd url sm w))) =
         engine_calls (trace w) @ [CallConftest ctx dd [url]]"
  using assms
  by (simp add: Download_default Let_def engine_calls_emit split: outcome.splits)



lemma secure_example: "isSecure ''https://example.com/org/repo.git''"
  by code_simp

lemma insecure_example: "\<not> isSecure ''http://example.com/org/repo.git''"
  by code_simp

lemma ctx_downloadImpl_With [simp]: "ctx_downloadImpl (WithDownloadImpl ctx d) = d"
  by (cases d) (simp_all add: ctx_downloadImpl_def WithDownloadImpl_def)

lemma ctx_downloadImpl_todo [simp]: "ctx_downloadImpl todo = None"
  by (simp add: ctx_downloadImpl_def todo_def)

lemma result_gather:
  assumes "isSecure url" "UseGoGather env"
  shows "fst (Download env ctx dd url sm w) = gatherFunc env ctx url dd"
  using assms by (simp add: Download_gather Let_def split: outcome.splits)

lemma result_impl:
  assumes "isSecure url" "\<not> UseGoGather env" "ctx_downloadImpl ctx = Some d"
  shows "fst (Download env ctx dd url sm w) =
     (case impl_Download env d ctx dd [url] of
        Returns err \<Rightarrow> Returns (None, err)
      | Panics p \<Rightarrow> Panics p
      | Hangs \<Rightarrow> Hangs)"
  using assms by (simp add: Download_impl Let_def split: outcome.splits)

lemma result_default:
  assumes "isSecure url" "\<not> UseGoGather env" "ctx_downloadImpl ctx = None" "\<not> dlMutex w"
  shows "fst (Download env ctx dd url sm w) =
     (case conftest_Download env ctx dd [url] of
        Returns err \<Rightarrow> Returns (None, err)
      | Panics p \<Rightarrow> Panics p
      | Hangs \<Rightarrow> Hangs)"
  using assms by (simp add: Download_default Let_def split: outcome.splits)

text \<open>On the default path the mutex is free again when the engine has returned or
  panicked: the deferred \<open>Unlock\<close> ran.\<close>

lemma dl_default_releases:
  assumes "\<not> dlMutex w" "conftest_Download env ctx dd [url] \<noteq> Hangs"
  shows "\<not> dlMutex (snd (dl_default env ctx url dd w))"
  using assms
  by (simp add: dl_default_def Let_def unlock_def emit_def split: outcome.splits)

lemma Download_nil_metadata:
  assumes "\<not> UseGoGather env" "fst (Download env ctx dd url sm w) = Returns (m, err)"
  shows "m = None"
proof (cases "isSecure url")
  case False
  with assms show ?thesis by (simp add: Download_def)
next
  case True
  show ?thesis
  proof (cases "ctx_downloadImpl ctx")
    case None
    with True assms show ?thesis
      by (auto simp: Download_default Let_def split: if_splits outcome.splits)
  next
    case (Some d)
    with True assms show ?thesis
      by (auto simp: Download_impl Let_def split: if_splits outcome.splits)
  qed
qed

lemma Download_metadata_gather:
  assumes "fst (Download env ctx dd url sm w) = Returns (Some m, err)"
  shows "UseGoGather env \<and> isSecure url \<and> gatherFunc env ctx url dd = Returns (Some m, err)"
proof -
  have u: "UseGoGather env"
    using assms Download_nil_metadata [of env ctx dd url sm w "Some m" err] by auto
  have s: "isSecure url"
  proof (rule ccontr)
    assume "\<not> isSecure url"
    with assms show False by (simp add: Download_def)
  qed
  from u s assms have "gatherFunc env ctx url dd = Returns (Some m, err)"
    by (simp add: result_gather)
  with u s show ?thesis by simp
qed

section \<open>The dispatcher: claims\<close>

text \<open>
  Claim C2. For every source URL classified insecure, \<open>Download\<close> returns at once with nil
  metadata and an error whose text is \<open>attempting to download from insecure source: \<close>
  followed by the URL. The state is the one before the call: nothing was logged, no
  engine was called and the mutex was not touched.
\<close>

theorem Download_insecure:
  "\<not> isSecure url \<Longrightarrow>
   Download env ctx dd url sm w =
     (Returns (None, Some (Errorf (''attempting to download from insecure source: '' @ url))), w)
   \<and> Error (Errorf (''attempting to download from insecure source: '' @ url) :: 'x error) =
       ''attempting to download from insecure source: '' @ url"
  by (simp add: Download_def)

theorem Download_insecure_witness:
  "\<not> isSecure ''http://example.com/org/repo.git''
   \<and> Download (mock_env False None None) (WithDownloadImpl todo (Some 0)) ''dir''
        ''http://example.com/org/repo.git'' False idle =
      (Returns (None, Some (Errorf
         ''attempting to download from insecure source: http://example.com/org/repo.git'')), idle)"
  using Download_insecure [OF insecure_example,
      of "mock_env False None None" "WithDownloadImpl todo (Some 0)" "''dir''" False idle]
    insecure_example
  by simp




text \<open>
  Claim C4. For a secure URL, with \<open>UseGoGather\<close> unset and an engine attached by
  \<open>WithDownloadImpl\<close>, \<open>Download\<close> calls that engine exactly once, with the context it was
  given, the destination directory and the list of the one source URL, and returns nil
  metadata with the engine's error value as it is (nil or not); a panic of the engine is
  the panic of the call, and an engine that never returns keeps the call from returning.
\<close>

theorem Download_test_engine:
  "isSecure url \<Longrightarrow> \<not> UseGoGather env \<Longrightarrow>
   engine_calls (trace (snd (Download env (WithDownloadImpl ctx0 (Some d)) dd url sm w))) =
     engine_calls (trace w) @ [CallImpl d (WithDownloadImpl ctx0 (Some d)) dd [url]]
   \<and> fst (Download env (WithDownloadImpl ctx0 (Some d)) dd url sm w) =
     (case impl_Download env d (WithDownloadImpl ctx0 (Some d)) dd [url] of
        Returns err \<Rightarrow> Returns (None, err)
      | Panics p \<Rightarrow> Panics p
      | Hangs \<Rightarrow> Hangs)"
  by (simp add: calls_impl result_impl)

theorem Download_test_engine_witness:
  "isSecure ''https://example.com/org/repo.git''
   \<and> \<not> UseGoGather (mock_env False None (Some (Other 1 ''expected error'')))
   \<and> engine_calls (trace (snd (Download (mock_env False None (Some (Other 1 ''expected error'')))
        (WithDownloadImpl todo (Some 0)) ''dir'' ''https://example.com/org/repo.git'' False idle))) =
      [CallImpl 0 (WithDownloadImpl todo (Some 0)) ''dir'' [''https://example.com/org/repo.git'']]
   \<and> fst (Download (mock_env False None (Some (Other 1 ''expected error'')))
        (WithDownloadImpl todo (Some 0)) ''dir'' ''https://example.com/org/repo.git'' False idle) =
      Returns (None, Some (Other 1 ''expected error''))
   \<and> fst (Download (mock_env False None None)
        (WithDownloadImpl todo (Some 0)) ''dir'' ''https://example.com/org/repo.git'' False idle) =
      Returns (None, None)"
proof -
  have u: "\<not> UseGoGather (mock_env False None e)" for e
    by (simp add: mock_env_def)
  show ?thesis
    using Download_test_engine [OF secure_example u, of "Some (Other 1 ''expected error'')" todo 0 "''dir''" False idle]
      Download_test_engine [OF secure_example u, of None todo 0 "''dir''" False idle]
      secure_example u
    by (simp add: mock_env_def idle_def engine_calls_def)
qed

text \<open>
  Claim C6. When the chosen engine returns an error, \<open>Download\<close> returns that very error
  value, and the engine calls of the whole call are that one call: no other engine is
  tried after it and the call is not repeated.
\<close>

theorem engine_error_propagated:
  "isSecure url \<Longrightarrow>
   (UseGoGather env \<and> gatherFunc env ctx url dd = Returns (m, Some e) \<longrightarrow>
      fst (Download env ctx dd url sm w) = Returns (m, Some e)
      \<and> engine_calls (trace (snd (Download env ctx dd url sm w))) =
        engine_calls (trace w) @ [CallGather ctx url dd])
   \<and> (\<not> UseGoGather env \<and> ctx_downloadImpl ctx = Some d
       \<and> impl_Download env d ctx dd [url] = Returns (Some e) \<longrightarrow>
      fst (Download env ctx dd url sm w) = Returns (None, Some e)
      \<and> engine_calls (trace (snd (Download env ctx dd url sm w))) =
        engine_calls (trace w) @ [CallImpl d ctx dd [url]])
   \<and> (\<not> UseGoGather env \<and> ctx_downloadImpl ctx = None \<and> \<not> dlMutex w
       \<and> conftest_Download env ctx dd [url] = Returns (Some e) \<longrightarrow>
      fst (Download env ctx dd url sm w) = Returns (None, Some e)
      \<and> engine_calls (trace (snd (Download env ctx dd url sm w))) =
        engine_calls (trace w) @ [CallConftest ctx dd [url]])"
  by (simp add: calls_gather calls_impl calls_default result_gather result_impl result_default)

theorem engine_error_propagated_witness:
  "isSecure ''https://example.com/org/repo.git''
   \<and> fst (Download (mock_env True None (Some (Other 1 ''expected error with go-gather'')))
        (WithDownloadImpl todo (Some 0)) ''dir'' ''https://example.com/org/repo.git'' False idle) =
      Returns (None, Some (Other 1 ''expected error with go-gather''))
   \<and> fst (Download (mock_env False None (Some (Other 1 ''expected error'')))
        (WithDownloadImpl todo (Some 0)) ''dir'' ''https://example.com/org/repo.git'' False idle) =
      Returns (None, Some (Other 1 ''expected error''))
   \<and> fst (Download (mock_env False None (Some (Other 1 ''expected error'')))
        todo ''dir'' ''https://example.com/org/repo.git'' False idle) =
      Returns (None, Some (Other 1 ''expected error''))
   \<and> engine_calls (trace (snd (Download (mock_env False None (Some (Other 1 ''expected error'')))
        todo ''dir'' ''https://example.com/org/repo.git'' False idle))) =
      [CallConftest todo ''dir'' [''https://example.com/org/repo.git'']]"
  using engine_error_propagated [OF secure_example,
      of "mock_env True None (Some (Other 1 ''expected error with go-gather''))"
      "WithDownloadImpl todo (Some 0)" "''dir''" None "Other 1 ''expected error with go-gather''" False idle 0]
    engine_error_propagated [OF secure_example,
      of "mock_env False None (Some (Other 1 ''expected error''))"
      "WithDownloadImpl todo (Some 0)" "''dir''" None "Other 1 ''expected error''" False idle 0]
    engine_error_propagated [OF secure_example,
      of "mock_env False None (Some (Other 1 ''expected error''))"
      todo "''dir''" None "Other 1 ''expected error''" False idle 0]
    secure_example
  by (simp add: mock_env_def idle_def engine_calls_def)

text \<open>
  Claim C10. With \<open>UseGoGather\<close> unset (the Conftest downloader or an attached engine
  serves the call) the metadata returned is nil; metadata that is not nil is what
  \<open>gatherFunc\<close> returned, with \<open>UseGoGather\<close> set.
\<close>

theorem metadata_only_from_gather:
  "(\<not> UseGoGather env \<and> fst (Download env ctx dd url sm w) = Returns (m, err) \<longrightarrow> m = None)
   \<and> (fst (Download env ctx dd url sm w) = Returns (Some v, err) \<longrightarrow>
        UseGoGather env \<and> gatherFunc env ctx url dd = Returns (Some v, err))"
  using Download_nil_metadata [of env ctx dd url sm w m err]
    Download_metadata_gather [of env ctx dd url sm w v err]
  by blast


theorem metadata_only_from_gather_witness:
  "\<not> UseGoGather (mock_env False (Some 7) None)
   \<and> fst (Download (mock_env False (Some 7) None) (WithDownloadImpl todo (Some 0)) ''dir''
        ''https://example.com/org/repo.git'' False idle) = Returns (None, None)
   \<and> fst (Download (mock_env False (Some 7) None) todo ''dir''
        ''https://example.com/org/repo.git'' False idle) = Returns (None, None)
   \<and> fst (Download (mock_env True (Some 7) None) (WithDownloadImpl todo (Some 0)) ''dir''
        ''https://example.com/org/repo.git'' False idle) = Returns (Some 7, None)
   \<and> UseGoGather (mock_env True (Some 7) None)"
proof -
  have u: "\<not> UseGoGather (mock_env False (Some 7) None)" "UseGoGather (mock_env True (Some 7) None)"
    by (simp_all add: mock_env_def)
  have 1: "fst (Download (mock_env False (Some 7) None) (WithDownloadImpl todo (Some 0)) ''dir''
        ''https://example.com/org/repo.git'' False idle) = Returns (None, None)"
    using secure_example u(1) by (simp add: result_impl) (simp add: mock_env_def)
  have 2: "fst (Download (mock_env False (Some 7) None) todo ''dir''
        ''https://example.com/org/repo.git'' False idle) = Returns (None, None)"
    using secure_example u(1) by (simp add: result_default idle_def) (simp add: mock_env_def)
  have 3: "fst (Download (mock_env True (Some 7) None) (WithDownloadImpl todo (Some 0)) ''dir''
        ''https://example.com/org/repo.git'' False idle) = Returns (Some 7, None)"
    using secure_example u(2) by (simp add: result_gather) (simp add: mock_env_def)
  from metadata_only_from_gather [of "mock_env False (Some 7) None"
      "WithDownloadImpl todo (Some 0)" "''dir''" "''https://example.com/org/repo.git''" False idle
      None None 7]
    metadata_only_from_gather [of "mock_env True (Some 7) None"
      "WithDownloadImpl todo (Some 0)" "''dir''" "''https://example.com/org/repo.git''" False idle
      "Some 7" None 7]
    u 1 2 3
  show ?thesis by simp
qed

end
